theory Spec2Isabelle
  imports Main "HOL-Library.Sublist" "HOL-Library.Char_ord" "HOL-Library.List_Lexorder"
begin

section \<open>The stream-to-Lambda bridge of main.go\<close>

text \<open>
  The program reads four environment variables, makes sure a consumer group exists on
  every configured stream, and then loops forever: one blocking \<open>XREADGROUP\<close>, one Lambda
  invocation per message, one \<open>XACK\<close> per invocation that returned no error.

  Redis, AWS and the logger are outside the program. They are modelled as a record of
  operations over an abstract state \<open>'w\<close> (the \<open>world\<close>), and every function of
  main.go returns the list of calls and log lines it made, in order, together with the new
  state. A Go \<open>error\<close> is the text of its \<open>Error()\<close>; \<open>nil\<close> is \<open>None\<close>.
\<close>

subsection \<open>Data\<close>

text \<open>
  \<open>redis.XMessage\<close>. \<open>Values\<close> is a Go map; it is kept as the list of its
  entries (the keys of a map are distinct), and every reader below orders the entries by
  key itself. The values go-redis stores for a stream entry are strings.
\<close>

record XMessage =
  ID :: string
  Values :: "(string \<times> string) list"

text \<open>\<open>redis.XStream\<close>: one stream's share of a batch.\<close>

record XStream =
  Stream :: string
  Messages :: "XMessage list"

text \<open>\<open>redis.XReadGroupArgs\<close>, the fields main.go sets.\<close>

record XReadGroupArgs =
  Group :: string
  Consumer :: string
  Streams :: "string list"
  Count :: int
  Block :: int

text \<open>
  \<open>lambda.InvokeOutput\<close>, the fields main.go reads. \<open>StatusCode\<close> is a pointer the
  SDK sets from the status of the HTTP response on every result it returns.
\<close>

record InvokeOutput =
  StatusCode :: int
  Payload :: string

text \<open>What the process does that can be seen from outside, in order.\<close>

datatype event =
    Call_XGroupCreateMkStream string string string
  | Call_XReadGroup XReadGroupArgs
  | Call_XAck string string string
  | Call_Invoke string string
  | Call_Close
  | Printf string
  | Fatalf string
  | Panic string

text \<open>
  \<open>Running\<close>: still inside \<open>for { }\<close> when the observation ends.
  \<open>Exited 1\<close> is \<open>log.Fatalf\<close> (\<open>os.Exit(1)\<close>), \<open>Exited 2\<close> an unrecovered panic.
\<close>

datatype status = Running | Exited int

datatype control = Proceed | Terminated

text \<open>The collaborators. \<open>ParseURL\<close> and \<open>NewSession\<close> do not touch the store.\<close>

record 'w world =
  ParseURL :: "string \<Rightarrow> string option"
  NewSession :: "string option"
  XGroupCreateMkStream :: "string \<Rightarrow> string \<Rightarrow> string \<Rightarrow> 'w \<Rightarrow> string option \<times> 'w"
  XReadGroup :: "XReadGroupArgs \<Rightarrow> 'w \<Rightarrow> (string + XStream list) \<times> 'w"
  XAck :: "string \<Rightarrow> string \<Rightarrow> string \<Rightarrow> 'w \<Rightarrow> string option \<times> 'w"
  Invoke :: "string \<Rightarrow> string \<Rightarrow> 'w \<Rightarrow> (string + InvokeOutput) \<times> 'w"

text \<open>The four environment variables of \<open>main\<close>.\<close>

record env =
  REDIS_URL :: string
  REDIS_STREAMS :: string
  CONSUMER_GROUP :: string
  LAMBDA_NAME :: string

subsection \<open>Library functions the program calls\<close>

text \<open>
  \<open>strings.Split(s, sep)\<close> for a one-byte separator: the pieces between the
  separators, so one more piece than there are separators, and \<open>[""]\<close> for the empty
  string.
\<close>

fun strings_Split :: "string \<Rightarrow> char \<Rightarrow> string list" where
  "strings_Split [] sep = [[]]"
| "strings_Split (c # cs) sep =
     (if c = sep then [] # strings_Split cs sep
      else (case strings_Split cs sep of
              [] \<Rightarrow> [[c]]
            | piece # pieces \<Rightarrow> (c # piece) # pieces))"

text \<open>\<open>strings.Contains(s, substr)\<close>.\<close>

definition strings_Contains :: "string \<Rightarrow> string \<Rightarrow> bool" where
  "strings_Contains s substr = sublist substr s"

text \<open>The verb \<open>%d\<close> of package fmt on an integer.\<close>

fun fmt_nat :: "nat \<Rightarrow> string" where
  "fmt_nat n =
     (if n < 10 then [char_of (48 + n)]
      else fmt_nat (n div 10) @ [char_of (48 + n mod 10)])"

definition fmt_d :: "int \<Rightarrow> string" where
  "fmt_d i = (if i < 0 then CHR ''-'' # fmt_nat (nat (- i)) else fmt_nat (nat i))"

text \<open>
  The verb \<open>%v\<close> of package fmt on a map with string keys and string values:
  \<open>map[k1:v1 k2:v2]\<close>, the entries in ascending order of the keys, one space between
  two entries.
\<close>

fun join_space :: "string list \<Rightarrow> string" where
  "join_space [] = []"
| "join_space [x] = x"
| "join_space (x # y # ys) = x @ CHR '' '' # join_space (y # ys)"

definition fmt_entry :: "string \<times> string \<Rightarrow> string" where
  "fmt_entry kv = fst kv @ CHR '':'' # snd kv"

definition fmt_v_map :: "(string \<times> string) list \<Rightarrow> string" where
  "fmt_v_map m = ''map['' @ join_space (map fmt_entry (sort_key fst m)) @ '']''"

subsection \<open>The functions of main.go\<close>

text \<open>\<open>splitStreams\<close>: split streams by comma.\<close>

definition splitStreams :: "string \<Rightarrow> string list" where
  "splitStreams streams = strings_Split streams (CHR '','')"

text \<open>\<open>initializeRedisClient\<close>: a URL that does not parse is fatal.\<close>

definition initializeRedisClient :: "'w world \<Rightarrow> string \<Rightarrow> event list \<times> control" where
  "initializeRedisClient W redisURL =
     (case ParseURL W redisURL of
        Some err \<Rightarrow> ([Fatalf (''Failed to parse Redis URL: '' @ err)], Terminated)
      | None \<Rightarrow> ([], Proceed))"

definition BUSYGROUP :: string where
  "BUSYGROUP = ''BUSYGROUP Consumer Group name already exists''"

text \<open>\<open>ensureConsumerGroupExists\<close>.\<close>

definition ensureConsumerGroupExists ::
  "'w world \<Rightarrow> string \<Rightarrow> string \<Rightarrow> 'w \<Rightarrow> event list \<times> control \<times> 'w" where
  "ensureConsumerGroupExists W stream consumerGroup w =
     (case XGroupCreateMkStream W stream consumerGroup ''$'' w of
        (Some err, w') \<Rightarrow>
          if strings_Contains err BUSYGROUP
          then ([Call_XGroupCreateMkStream stream consumerGroup ''$'',
                 Printf (''Consumer group '' @ consumerGroup @ '' already exists for stream ''
                         @ stream @ '', skipping creation.'')], Proceed, w')
          else ([Call_XGroupCreateMkStream stream consumerGroup ''$'',
                 Fatalf (''Error creating consumer group: '' @ err)], Terminated, w')
      | (None, w') \<Rightarrow>
          ([Call_XGroupCreateMkStream stream consumerGroup ''$'',
            Printf (''Consumer group '' @ consumerGroup @ '' created for stream ''
                    @ stream @ ''.'')], Proceed, w'))"

text \<open>The start-up loop \<open>for _, stream := range streamList\<close>; a fatal log ends it.\<close>

fun ensure_all :: "'w world \<Rightarrow> string list \<Rightarrow> string \<Rightarrow> 'w \<Rightarrow> event list \<times> control \<times> 'w" where
  "ensure_all W [] consumerGroup w = ([], Proceed, w)"
| "ensure_all W (stream # streamList) consumerGroup w =
     (case ensureConsumerGroupExists W stream consumerGroup w of
        (evs, Terminated, w') \<Rightarrow> (evs, Terminated, w')
      | (evs, Proceed, w') \<Rightarrow>
          (case ensure_all W streamList consumerGroup w' of
             (evs', c, w'') \<Rightarrow> (evs @ evs', c, w'')))"

text \<open>The payload \<open>invokeLambda\<close> builds from a message.\<close>

definition payload_of :: "XMessage \<Rightarrow> string" where
  \<open>payload_of message = ''{"message": "'' @ fmt_v_map (Values message) @ ''"}''\<close>

text \<open>\<open>invokeLambda\<close>: the error of the call, or \<open>nil\<close> after logging the response.\<close>

definition invokeLambda ::
  "'w world \<Rightarrow> string \<Rightarrow> XMessage \<Rightarrow> 'w \<Rightarrow> string option \<times> event list \<times> 'w" where
  "invokeLambda W functionName message w =
     (case Invoke W functionName (payload_of message) w of
        (Inl err, w') \<Rightarrow> (Some err, [Call_Invoke functionName (payload_of message)], w')
      | (Inr result, w') \<Rightarrow>
          (None,
           [Call_Invoke functionName (payload_of message),
            Printf (''Lambda invoked successfully. StatusCode: '' @ fmt_d (StatusCode result)
                    @ '', Payload: '' @ Payload result)], w'))"

text \<open>The arguments of the read in \<open>main\<close>.\<close>

definition read_args :: "string list \<Rightarrow> string \<Rightarrow> XReadGroupArgs" where
  "read_args streamList consumerGroup =
     \<lparr>Group = consumerGroup, Consumer = ''consumer-1'', Streams = streamList @ [''>''],
      Count = 10, Block = 0\<rparr>"

text \<open>The body of the inner loop of \<open>main\<close>, for one message of one stream.\<close>

definition process_message ::
  "'w world \<Rightarrow> string \<Rightarrow> string \<Rightarrow> string \<Rightarrow> XMessage \<Rightarrow> 'w \<Rightarrow> event list \<times> 'w" where
  "process_message W consumerGroup lambdaName stream message w =
     (case invokeLambda W lambdaName message w of
        (Some err, evs, w') \<Rightarrow>
          (Printf (''Processing message ID: '' @ ID message @ '' from stream: '' @ stream)
           # evs @ [Printf (''Error invoking Lambda: '' @ err)], w')
      | (None, evs, w') \<Rightarrow>
          (case XAck W stream consumerGroup (ID message) w' of
             (_, w'') \<Rightarrow>
               (Printf (''Processing message ID: '' @ ID message @ '' from stream: '' @ stream)
                # evs @
                [Call_XAck stream consumerGroup (ID message),
                 Printf (''Message ID '' @ ID message @ '' acknowledged in consumer group ''
                         @ consumerGroup)], w'')))"

text \<open>\<open>for _, message := range entry.Messages\<close>.\<close>

fun process_messages ::
  "'w world \<Rightarrow> string \<Rightarrow> string \<Rightarrow> string \<Rightarrow> XMessage list \<Rightarrow> 'w \<Rightarrow> event list \<times> 'w" where
  "process_messages W consumerGroup lambdaName stream [] w = ([], w)"
| "process_messages W consumerGroup lambdaName stream (message # messages) w =
     (case process_message W consumerGroup lambdaName stream message w of
        (evs, w') \<Rightarrow>
          (case process_messages W consumerGroup lambdaName stream messages w' of
             (evs', w'') \<Rightarrow> (evs @ evs', w'')))"

text \<open>\<open>for _, entry := range entries\<close>.\<close>

fun process_entries ::
  "'w world \<Rightarrow> string \<Rightarrow> string \<Rightarrow> XStream list \<Rightarrow> 'w \<Rightarrow> event list \<times> 'w" where
  "process_entries W consumerGroup lambdaName [] w = ([], w)"
| "process_entries W consumerGroup lambdaName (entry # entries) w =
     (case process_messages W consumerGroup lambdaName (Stream entry) (Messages entry) w of
        (evs, w') \<Rightarrow>
          (case process_entries W consumerGroup lambdaName entries w' of
             (evs', w'') \<Rightarrow> (evs @ evs', w'')))"

text \<open>One turn of \<open>for { }\<close>: the read, then \<open>continue\<close> on an error or the batch.\<close>

definition iteration ::
  "'w world \<Rightarrow> string list \<Rightarrow> string \<Rightarrow> string \<Rightarrow> 'w \<Rightarrow> event list \<times> 'w" where
  "iteration W streamList consumerGroup lambdaName w =
     (case XReadGroup W (read_args streamList consumerGroup) w of
        (Inl err, w') \<Rightarrow>
          ([Call_XReadGroup (read_args streamList consumerGroup),
            Printf (''Error reading from Redis stream: '' @ err)], w')
      | (Inr entries, w') \<Rightarrow>
          (case process_entries W consumerGroup lambdaName entries w' of
             (evs, w'') \<Rightarrow> (Call_XReadGroup (read_args streamList consumerGroup) # evs, w'')))"

text \<open>
  \<open>for { }\<close> has no exit: the model runs its first \<open>n\<close> turns and the process is still
  in the loop afterwards.
\<close>

fun dispatch_loop ::
  "'w world \<Rightarrow> string list \<Rightarrow> string \<Rightarrow> string \<Rightarrow> nat \<Rightarrow> 'w \<Rightarrow> event list \<times> 'w" where
  "dispatch_loop W streamList consumerGroup lambdaName 0 w = ([], w)"
| "dispatch_loop W streamList consumerGroup lambdaName (Suc n) w =
     (case iteration W streamList consumerGroup lambdaName w of
        (evs, w') \<Rightarrow>
          (case dispatch_loop W streamList consumerGroup lambdaName n w' of
             (evs', w'') \<Rightarrow> (evs @ evs', w'')))"

text \<open>
  \<open>main\<close>, observed for \<open>n\<close> turns of the dispatch loop. \<open>session.Must\<close> panics on
  an error of \<open>NewSession\<close>; the deferred \<open>rdb.Close()\<close> runs on a panic and not on
  \<open>log.Fatalf\<close>.
\<close>

definition main :: "'w world \<Rightarrow> env \<Rightarrow> nat \<Rightarrow> 'w \<Rightarrow> event list \<times> status \<times> 'w" where
  "main W e n w =
     (case initializeRedisClient W (REDIS_URL e) of
        (evs0, Terminated) \<Rightarrow> (evs0, Exited 1, w)
      | (evs0, Proceed) \<Rightarrow>
          (case ensure_all W (splitStreams (REDIS_STREAMS e)) (CONSUMER_GROUP e) w of
             (evs1, Terminated, w1) \<Rightarrow> (evs0 @ evs1, Exited 1, w1)
           | (evs1, Proceed, w1) \<Rightarrow>
               (case NewSession W of
                  Some err \<Rightarrow> (evs0 @ evs1 @ [Call_Close, Panic err], Exited 2, w1)
                | None \<Rightarrow>
                    (case dispatch_loop W (splitStreams (REDIS_STREAMS e)) (CONSUMER_GROUP e)
                            (LAMBDA_NAME e) n w1 of
                       (evs2, w2) \<Rightarrow> (evs0 @ evs1 @ evs2, Running, w2)))))"

subsection \<open>Reading a trace\<close>

text \<open>The calls of the dispatch loop: claim, invoke, acknowledge.\<close>

fun is_dispatch_call :: "event \<Rightarrow> bool" where
  "is_dispatch_call (Call_XReadGroup a) = True"
| "is_dispatch_call (Call_XAck s g i) = True"
| "is_dispatch_call (Call_Invoke f p) = True"
| "is_dispatch_call ev = False"

text \<open>A batch as the sequence of its messages, each with the stream it came from.\<close>

definition batch_messages :: "XStream list \<Rightarrow> (string \<times> XMessage) list" where
  "batch_messages entries =
     concat (map (\<lambda>entry. map (Pair (Stream entry)) (Messages entry)) entries)"

text \<open>
  The calls one message gives rise to: the invocation, then the acknowledgment when the
  invocation went through.
\<close>

definition calls_of :: "string \<Rightarrow> string \<Rightarrow> (string \<times> XMessage) \<times> bool \<Rightarrow> event list" where
  "calls_of consumerGroup lambdaName x =
     Call_Invoke lambdaName (payload_of (snd (fst x)))
     # (if snd x then [Call_XAck (fst (fst x)) consumerGroup (ID (snd (fst x)))] else [])"

subsection \<open>A small store and compute target to run the program against\<close>

text \<open>
  The store keeps the groups it has, the results of the reads still to come and the
  acknowledgments it took. Creating a group that exists answers with the error of Redis;
  \<open>create_fault\<close> and \<open>ack_fault\<close> make a call fail for a stream or a message id, and
  \<open>lam\<close> is the function behind the compute target.
\<close>

record sim =
  groups :: "(string \<times> string) list"
  reads :: "(string + XStream list) list"
  acked :: "(string \<times> string \<times> string) list"

definition sim_world ::
  "(string \<Rightarrow> string option) \<Rightarrow> (string \<Rightarrow> string + InvokeOutput) \<Rightarrow> (string \<Rightarrow> string option)
   \<Rightarrow> sim world" where
  "sim_world create_fault lam ack_fault =
     \<lparr>ParseURL = (\<lambda>url. if prefix ''redis://'' url then None
                         else Some ''redis: invalid URL scheme''),
      NewSession = None,
      XGroupCreateMkStream = (\<lambda>stream g start s.
         case create_fault stream of
           Some err \<Rightarrow> (Some err, s)
         | None \<Rightarrow>
             if (stream, g) \<in> set (groups s)
             then (Some ''BUSYGROUP Consumer Group name already exists'', s)
             else (None, s\<lparr>groups := (stream, g) # groups s\<rparr>)),
      XReadGroup = (\<lambda>args s.
         case reads s of
           [] \<Rightarrow> (Inl ''i/o timeout'', s)
         | r # rs \<Rightarrow> (r, s\<lparr>reads := rs\<rparr>)),
      XAck = (\<lambda>stream g i s.
         case ack_fault i of
           Some err \<Rightarrow> (Some err, s)
         | None \<Rightarrow> (None, s\<lparr>acked := (stream, g, i) # acked s\<rparr>)),
      Invoke = (\<lambda>f p s. (lam p, s))\<rparr>"

definition no_fault :: "string \<Rightarrow> string option" where
  "no_fault x = None"

definition lam_ok :: "string \<Rightarrow> string + InvokeOutput" where
  "lam_ok p = Inr \<lparr>StatusCode = 200, Payload = ''ok''\<rparr>"

definition lam_error :: "string \<Rightarrow> string + InvokeOutput" where
  "lam_error p = Inl ''RequestError: send request failed''"

definition fault_on :: "string \<Rightarrow> string \<Rightarrow> string \<Rightarrow> string option" where
  "fault_on x err y = (if y = x then Some err else None)"

definition sim0 :: sim where
  "sim0 = \<lparr>groups = [], reads = [], acked = []\<rparr>"

definition msg1 :: XMessage where
  "msg1 = \<lparr>ID = ''1-0'', Values = [(''user'', ''42''), (''action'', ''buy'')]\<rparr>"

definition env0 :: env where
  "env0 = \<lparr>REDIS_URL = ''redis://localhost:6379'', REDIS_STREAMS = ''orders'',
           CONSUMER_GROUP = ''g1'', LAMBDA_NAME = ''fn''\<rparr>"

definition msg2 :: XMessage where
  "msg2 = \<lparr>ID = ''2-0'', Values = [(''user'', ''7''), (''action'', ''sell'')]\<rparr>"

definition msg3 :: XMessage where
  "msg3 = \<lparr>ID = ''1-5'', Values = [(''order'', ''17'')]\<rparr>"

definition batch1 :: "XStream list" where
  "batch1 = [\<lparr>Stream = ''orders'', Messages = [msg1, msg2]\<rparr>,
             \<lparr>Stream = ''returns'', Messages = [msg3]\<rparr>]"

text \<open>A compute target that cannot be reached for one payload.\<close>

definition lam_fail_on :: "string \<Rightarrow> string \<Rightarrow> string + InvokeOutput" where
  "lam_fail_on bad p =
     (if p = bad then Inl ''RequestError: send request failed''
      else Inr \<lparr>StatusCode = 200, Payload = ''ok''\<rparr>)"

subsection \<open>The outcome of an invocation\<close>

text \<open>
  The success statuses of HTTP. The Lambda client that \<open>main\<close> builds with
  \<open>lambda.New(sess)\<close> returns a result only with one of them: the response validation
  of the SDK turns status 0 and every status from 300 on into the error of the call, and
  the service answers an invocation it has taken with 200, 202 or 204.
\<close>

definition success_status :: "int \<Rightarrow> bool" where
  "success_status s = (200 \<le> s \<and> s < 300)"

text \<open>An invocation succeeded: no error of the call, and a success status.\<close>

fun invocation_succeeded :: "string + InvokeOutput \<Rightarrow> bool" where
  "invocation_succeeded (Inl err) = False"
| "invocation_succeeded (Inr result) = success_status (StatusCode result)"

text \<open>
  The state in which the program is after the messages \<open>xs\<close> of a batch, and what
  \<open>Invoke\<close> returned for each of them at the moment it was called.
\<close>

fun state_after ::
  "'w world \<Rightarrow> string \<Rightarrow> string \<Rightarrow> (string \<times> XMessage) list \<Rightarrow> 'w \<Rightarrow> 'w" where
  "state_after W consumerGroup lambdaName [] w = w"
| "state_after W consumerGroup lambdaName (x # xs) w =
     state_after W consumerGroup lambdaName xs
       (snd (process_message W consumerGroup lambdaName (fst x) (snd x) w))"

fun invocation_results ::
  "'w world \<Rightarrow> string \<Rightarrow> string \<Rightarrow> (string \<times> XMessage) list \<Rightarrow> 'w
   \<Rightarrow> (string + InvokeOutput) list" where
  "invocation_results W consumerGroup lambdaName [] w = []"
| "invocation_results W consumerGroup lambdaName (x # xs) w =
     fst (Invoke W lambdaName (payload_of (snd x)) w)
     # invocation_results W consumerGroup lambdaName xs
         (snd (process_message W consumerGroup lambdaName (fst x) (snd x) w))"

subsection \<open>Reading a payload\<close>





section \<open>Properties\<close>

subsection \<open>Start-up\<close>

text \<open>Group initialization makes no call of the dispatch loop.\<close>

lemma ensureConsumerGroupExists_calls:
  "filter is_dispatch_call (fst (ensureConsumerGroupExists W stream g w)) = []"
  by (simp add: ensureConsumerGroupExists_def split: prod.splits option.splits)

lemma ensure_all_calls:
  "filter is_dispatch_call (fst (ensure_all W streamList g w)) = []"
proof (induction streamList arbitrary: w)
  case Nil
  show ?case by simp
next
  case (Cons stream streamList)
  obtain evs c w' where one: "ensureConsumerGroupExists W stream g w = (evs, c, w')"
    by (cases "ensureConsumerGroupExists W stream g w") auto
  have evs: "filter is_dispatch_call evs = []"
    using ensureConsumerGroupExists_calls [of W stream g w] one by simp
  show ?case
  proof (cases c)
    case Proceed
    obtain evs' c' w'' where rest: "ensure_all W streamList g w' = (evs', c', w'')"
      by (cases "ensure_all W streamList g w'") auto
    have "filter is_dispatch_call evs' = []"
      using Cons.IH [of w'] rest by simp
    with evs one rest Proceed show ?thesis by simp
  next
    case Terminated
    with evs one show ?thesis by simp
  qed
qed

text \<open>The start-up loop over a list in two parts.\<close>

lemma ensure_all_append:
  "ensure_all W (pre @ post) g w =
     (case ensure_all W pre g w of
        (evs, Terminated, w1) \<Rightarrow> (evs, Terminated, w1)
      | (evs, Proceed, w1) \<Rightarrow>
          (case ensure_all W post g w1 of (evs', c, w2) \<Rightarrow> (evs @ evs', c, w2)))"
proof (induction pre arbitrary: w)
  case Nil
  show ?case by (simp split: prod.splits)
next
  case (Cons stream pre)
  show ?case
    by (simp add: Cons.IH split: prod.splits control.splits)
qed

text \<open>
  C10. When the connection URL does not parse, the process logs the cause and exits with
  status 1 during client initialization: its whole trace is that one fatal log line, so no
  group-creation, claim, invoke or acknowledge call is made, and the store is in the state
  it was in.
\<close>

theorem malformed_url_is_fatal:
  assumes "ParseURL W (REDIS_URL e) = Some err"
  shows "main W e n w = ([Fatalf (''Failed to parse Redis URL: '' @ err)], Exited 1, w)"
  using assms by (simp add: main_def initializeRedisClient_def)

theorem malformed_url_is_fatal_witness:
  "ParseURL (sim_world no_fault lam_ok no_fault) (REDIS_URL (env0\<lparr>REDIS_URL := ''localhost:6379''\<rparr>))
     = Some ''redis: invalid URL scheme''
   \<and> main (sim_world no_fault lam_ok no_fault) (env0\<lparr>REDIS_URL := ''localhost:6379''\<rparr>) 3 sim0
     = ([Fatalf ''Failed to parse Redis URL: redis: invalid URL scheme''], Exited 1, sim0)"
proof -
  have h: "ParseURL (sim_world no_fault lam_ok no_fault)
             (REDIS_URL (env0\<lparr>REDIS_URL := ''localhost:6379''\<rparr>)) = Some ''redis: invalid URL scheme''"
    by (simp add: sim_world_def env0_def)
  show ?thesis
    using h malformed_url_is_fatal [OF h, of 3 sim0] by simp
qed

text \<open>
  C5. Group initialization is idempotent. When the store answers a creation with the error
  that the group already exists, \<open>ensureConsumerGroupExists\<close> logs an informational
  line and returns, and the start-up loop goes on with the streams that remain. (The
  witness runs the creation twice on the same stream and group.)
\<close>

theorem existing_group_is_not_an_error:
  assumes "XGroupCreateMkStream W stream g ''$'' w = (Some err, w')"
    and "strings_Contains err BUSYGROUP"
  shows "ensureConsumerGroupExists W stream g w =
           ([Call_XGroupCreateMkStream stream g ''$'',
             Printf (''Consumer group '' @ g @ '' already exists for stream '' @ stream
                     @ '', skipping creation.'')], Proceed, w')
         \<and> (\<exists>evs c w''. ensure_all W rest g w' = (evs, c, w'') \<and>
              ensure_all W (stream # rest) g w =
                ([Call_XGroupCreateMkStream stream g ''$'',
                  Printf (''Consumer group '' @ g @ '' already exists for stream '' @ stream
                          @ '', skipping creation.'')] @ evs, c, w''))"
proof -
  have one: "ensureConsumerGroupExists W stream g w =
           ([Call_XGroupCreateMkStream stream g ''$'',
             Printf (''Consumer group '' @ g @ '' already exists for stream '' @ stream
                     @ '', skipping creation.'')], Proceed, w')"
    using assms by (simp add: ensureConsumerGroupExists_def)
  obtain evs c w'' where rest: "ensure_all W rest g w' = (evs, c, w'')"
    by (cases "ensure_all W rest g w'") auto
  from one rest show ?thesis by simp
qed

theorem existing_group_is_not_an_error_witness:
  "ensure_all (sim_world no_fault lam_ok no_fault) [''orders'', ''orders''] ''g1'' sim0
     = ([Call_XGroupCreateMkStream ''orders'' ''g1'' ''$'',
         Printf ''Consumer group g1 created for stream orders.'',
         Call_XGroupCreateMkStream ''orders'' ''g1'' ''$'',
         Printf ''Consumer group g1 already exists for stream orders, skipping creation.''],
        Proceed, sim0\<lparr>groups := [(''orders'', ''g1'')]\<rparr>)"
proof -
  let ?W = "sim_world no_fault lam_ok no_fault"
  let ?s1 = "sim0\<lparr>groups := [(''orders'', ''g1'')]\<rparr>"
  have first: "ensureConsumerGroupExists ?W ''orders'' ''g1'' sim0 =
      ([Call_XGroupCreateMkStream ''orders'' ''g1'' ''$'',
        Printf ''Consumer group g1 created for stream orders.''], Proceed, ?s1)"
    by (simp add: ensureConsumerGroupExists_def sim_world_def no_fault_def sim0_def)
  have again: "XGroupCreateMkStream ?W ''orders'' ''g1'' ''$'' ?s1 =
      (Some ''BUSYGROUP Consumer Group name already exists'', ?s1)"
    by (simp add: sim_world_def no_fault_def)
  have busy: "strings_Contains ''BUSYGROUP Consumer Group name already exists'' BUSYGROUP"
    by (simp add: strings_Contains_def BUSYGROUP_def)
  have second: "ensureConsumerGroupExists ?W ''orders'' ''g1'' ?s1 =
      ([Call_XGroupCreateMkStream ''orders'' ''g1'' ''$'',
        Printf ''Consumer group g1 already exists for stream orders, skipping creation.''],
       Proceed, ?s1)"
    using existing_group_is_not_an_error [OF again busy, of "[]"] by simp
  show ?thesis
    using first second by simp
qed

text \<open>
  C6. Any other failure of a group creation is fatal: the cause is logged, the process
  exits with status 1 at that stream, and its trace holds no claim, invoke or acknowledge
  call, however long it is observed.
\<close>

theorem group_failure_is_fatal:
  assumes url: "ParseURL W (REDIS_URL e) = None"
    and streams: "splitStreams (REDIS_STREAMS e) = pre @ stream # post"
    and before: "ensure_all W pre (CONSUMER_GROUP e) w = (evs, Proceed, w1)"
    and fails: "XGroupCreateMkStream W stream (CONSUMER_GROUP e) ''$'' w1 = (Some err, w2)"
    and other: "\<not> strings_Contains err BUSYGROUP"
  shows "main W e n w =
           (evs @ [Call_XGroupCreateMkStream stream (CONSUMER_GROUP e) ''$'',
                   Fatalf (''Error creating consumer group: '' @ err)], Exited 1, w2)
         \<and> filter is_dispatch_call (fst (main W e n w)) = []"
proof -
  have one: "ensureConsumerGroupExists W stream (CONSUMER_GROUP e) w1 =
               ([Call_XGroupCreateMkStream stream (CONSUMER_GROUP e) ''$'',
                 Fatalf (''Error creating consumer group: '' @ err)], Terminated, w2)"
    using fails other by (simp add: ensureConsumerGroupExists_def)
  have tail: "ensure_all W (stream # post) (CONSUMER_GROUP e) w1 =
               ([Call_XGroupCreateMkStream stream (CONSUMER_GROUP e) ''$'',
                 Fatalf (''Error creating consumer group: '' @ err)], Terminated, w2)"
    using one by simp
  have all: "ensure_all W (splitStreams (REDIS_STREAMS e)) (CONSUMER_GROUP e) w =
               (evs @ [Call_XGroupCreateMkStream stream (CONSUMER_GROUP e) ''$'',
                       Fatalf (''Error creating consumer group: '' @ err)], Terminated, w2)"
    unfolding streams ensure_all_append using before tail by simp
  have m: "main W e n w =
           (evs @ [Call_XGroupCreateMkStream stream (CONSUMER_GROUP e) ''$'',
                   Fatalf (''Error creating consumer group: '' @ err)], Exited 1, w2)"
    using url all by (simp add: main_def initializeRedisClient_def)
  have "filter is_dispatch_call evs = []"
    using ensure_all_calls [of W pre "CONSUMER_GROUP e" w] before by simp
  with m show ?thesis by simp
qed

theorem group_failure_is_fatal_witness:
  "main (sim_world (fault_on ''b'' ''NOPERM no permissions'') lam_ok no_fault)
        (env0\<lparr>REDIS_STREAMS := ''a,b,c''\<rparr>) 5 sim0
     = ([Call_XGroupCreateMkStream ''a'' ''g1'' ''$'',
         Printf ''Consumer group g1 created for stream a.'',
         Call_XGroupCreateMkStream ''b'' ''g1'' ''$'',
         Fatalf ''Error creating consumer group: NOPERM no permissions''],
        Exited 1, sim0\<lparr>groups := [(''a'', ''g1'')]\<rparr>)"
proof -
  let ?W = "sim_world (fault_on ''b'' ''NOPERM no permissions'') lam_ok no_fault"
  let ?e = "env0\<lparr>REDIS_STREAMS := ''a,b,c''\<rparr>"
  have url: "ParseURL ?W (REDIS_URL ?e) = None"
    by (simp add: sim_world_def env0_def)
  have streams: "splitStreams (REDIS_STREAMS ?e) = [''a''] @ ''b'' # [''c'']"
    by (simp add: splitStreams_def env0_def)
  have before: "ensure_all ?W [''a''] (CONSUMER_GROUP ?e) sim0 =
      ([Call_XGroupCreateMkStream ''a'' ''g1'' ''$'',
        Printf ''Consumer group g1 created for stream a.''], Proceed,
       sim0\<lparr>groups := [(''a'', ''g1'')]\<rparr>)"
    by (simp add: ensureConsumerGroupExists_def sim_world_def fault_on_def env0_def sim0_def)
  have fails: "XGroupCreateMkStream ?W ''b'' (CONSUMER_GROUP ?e) ''$''
                 (sim0\<lparr>groups := [(''a'', ''g1'')]\<rparr>)
               = (Some ''NOPERM no permissions'', sim0\<lparr>groups := [(''a'', ''g1'')]\<rparr>)"
    by (simp add: sim_world_def fault_on_def)
  have other: "\<not> strings_Contains ''NOPERM no permissions'' BUSYGROUP"
    by (simp add: strings_Contains_def BUSYGROUP_def sublist_Cons_right)
  show ?thesis
    using group_failure_is_fatal [OF url streams before fails other, of 5]
    by (simp add: env0_def)
qed

subsection \<open>The dispatch loop\<close>



text \<open>
  C9. The empty stream list configuration gives the one-element list holding the empty
  string: the first call of the process creates the group on the stream named \<open>""\<close>, and
  when that succeeds the read names the empty stream as its only stream.
\<close>

theorem empty_stream_list_is_one_empty_stream:
  assumes "ParseURL W (REDIS_URL e) = None" and "REDIS_STREAMS e = []"
  shows "splitStreams (REDIS_STREAMS e) = [[]]
         \<and> (\<exists>evs st w'. main W e n w =
               (Call_XGroupCreateMkStream [] (CONSUMER_GROUP e) ''$'' # evs, st, w'))
         \<and> (NewSession W = None \<and>
            XGroupCreateMkStream W [] (CONSUMER_GROUP e) ''$'' w = (None, w1)
            \<longrightarrow> (\<exists>evs w'. main W e (Suc n) w =
                  ([Call_XGroupCreateMkStream [] (CONSUMER_GROUP e) ''$'',
                    Printf (''Consumer group '' @ CONSUMER_GROUP e @ '' created for stream .''),
                    Call_XReadGroup \<lparr>Group = CONSUMER_GROUP e, Consumer = ''consumer-1'',
                                     Streams = [[], ''>''], Count = 10, Block = 0\<rparr>] @ evs,
                   Running, w')))"
proof -
  have split: "splitStreams (REDIS_STREAMS e) = [[]]"
    using assms(2) by (simp add: splitStreams_def)
  have first: "\<exists>evs st w'. main W e n w =
               (Call_XGroupCreateMkStream [] (CONSUMER_GROUP e) ''$'' # evs, st, w')"
    using assms(1) split
    by (simp add: main_def initializeRedisClient_def ensureConsumerGroupExists_def
        split: prod.splits option.splits control.splits)
  have hd_it: "\<exists>evs w''. iteration W [[]] (CONSUMER_GROUP e) (LAMBDA_NAME e) w1 =
                 (Call_XReadGroup (read_args [[]] (CONSUMER_GROUP e)) # evs, w'')"
    by (simp add: iteration_def split: prod.splits sum.splits)
  then obtain evs1 w2 where nxt: "iteration W [[]] (CONSUMER_GROUP e) (LAMBDA_NAME e) w1 =
                 (Call_XReadGroup (read_args [[]] (CONSUMER_GROUP e)) # evs1, w2)"
    by blast
  obtain evs2 w3 where rest:
    "dispatch_loop W [[]] (CONSUMER_GROUP e) (LAMBDA_NAME e) n w2 = (evs2, w3)"
    by (cases "dispatch_loop W [[]] (CONSUMER_GROUP e) (LAMBDA_NAME e) n w2") auto
  have claim: "NewSession W = None \<and>
            XGroupCreateMkStream W [] (CONSUMER_GROUP e) ''$'' w = (None, w1)
            \<longrightarrow> main W e (Suc n) w =
                  ([Call_XGroupCreateMkStream [] (CONSUMER_GROUP e) ''$'',
                    Printf (''Consumer group '' @ CONSUMER_GROUP e @ '' created for stream .''),
                    Call_XReadGroup \<lparr>Group = CONSUMER_GROUP e, Consumer = ''consumer-1'',
                                     Streams = [[], ''>''], Count = 10, Block = 0\<rparr>] @ (evs1 @ evs2),
                   Running, w3)"
    using assms(1) split nxt rest
    by (simp add: main_def initializeRedisClient_def ensureConsumerGroupExists_def read_args_def)
  from split first claim show ?thesis by blast
qed

theorem empty_stream_list_is_one_empty_stream_witness:
  "splitStreams [] = [[]] \<and>
   (\<exists>evs w'. main (sim_world no_fault lam_ok no_fault) (env0\<lparr>REDIS_STREAMS := []\<rparr>) 1 sim0 =
      ([Call_XGroupCreateMkStream [] ''g1'' ''$'',
        Printf ''Consumer group g1 created for stream .'',
        Call_XReadGroup \<lparr>Group = ''g1'', Consumer = ''consumer-1'',
                         Streams = [[], ''>''], Count = 10, Block = 0\<rparr>] @ evs, Running, w'))"
proof -
  let ?W = "sim_world no_fault lam_ok no_fault"
  let ?e = "env0\<lparr>REDIS_STREAMS := []\<rparr>"
  have url: "ParseURL ?W (REDIS_URL ?e) = None"
    by (simp add: sim_world_def env0_def)
  have empty: "REDIS_STREAMS ?e = []"
    by simp
  have ok: "NewSession ?W = None \<and>
            XGroupCreateMkStream ?W [] (CONSUMER_GROUP ?e) ''$'' sim0
              = (None, sim0\<lparr>groups := [([], ''g1'')]\<rparr>)"
    by (simp add: sim_world_def no_fault_def sim0_def env0_def)
  show ?thesis
    using empty_stream_list_is_one_empty_stream
            [OF url empty, of 0 sim0 "sim0\<lparr>groups := [([], ''g1'')]\<rparr>"] ok
    by (simp add: env0_def)
qed

text \<open>
  C2, at two configured streams. The read carries the consumer group, the fixed consumer
  \<open>consumer-1\<close>, count 10 and block 0, but \<open>append(streamList, ">")\<close> puts the
  cursor \<open>>\<close> once after the stream names, whatever their number: for the streams
  \<open>a,b\<close> the argument is \<open>a b >\<close>, one cursor for two streams.
\<close>

theorem one_sentinel_for_two_streams:
  "splitStreams ''a,b'' = [''a'', ''b'']
   \<and> read_args (splitStreams ''a,b'') ''g1'' =
       \<lparr>Group = ''g1'', Consumer = ''consumer-1'', Streams = [''a'', ''b'', ''>''],
        Count = 10, Block = 0\<rparr>
   \<and> Streams (read_args (splitStreams ''a,b'') ''g1'') \<noteq> [''a'', ''b'', ''>'', ''>'']"
  by (simp add: splitStreams_def read_args_def)

subsection \<open>One message\<close>

text \<open>The payloads of the sample messages.\<close>

lemma payload_msg1: \<open>payload_of msg1 = ''{"message": "map[action:buy user:42]"}''\<close>
  by code_simp

lemma payload_msg2: \<open>payload_of msg2 = ''{"message": "map[action:sell user:7]"}''\<close>
  by code_simp

lemma payload_msg3: \<open>payload_of msg3 = ''{"message": "map[order:17]"}''\<close>
  by code_simp

text \<open>
  C4, where the acknowledgment fails after a successful invocation. The result of
  \<open>XAck\<close> is not looked at: the trace holds no line for the error, and the line that
  says the message was acknowledged is logged all the same.
\<close>

theorem ack_error_is_dropped:
  \<open>XAck (sim_world no_fault lam_ok (fault_on ''1-0'' ''connection reset''))
      ''orders'' ''g1'' ''1-0'' sim0 = (Some ''connection reset'', sim0)
   \<and> process_message (sim_world no_fault lam_ok (fault_on ''1-0'' ''connection reset''))
        ''g1'' ''fn'' ''orders'' msg1 sim0 =
       ([Printf ''Processing message ID: 1-0 from stream: orders'',
         Call_Invoke ''fn'' ''{"message": "map[action:buy user:42]"}'',
         Printf ''Lambda invoked successfully. StatusCode: 200, Payload: ok'',
         Call_XAck ''orders'' ''g1'' ''1-0'',
         Printf ''Message ID 1-0 acknowledged in consumer group g1''], sim0)\<close>
proof -
  have d: "fmt_d 200 = ''200''"
    by code_simp
  have i: "ID msg1 = ''1-0''"
    by (simp add: msg1_def)
  show ?thesis
    by (simp add: process_message_def invokeLambda_def payload_msg1 sim_world_def lam_ok_def
        fault_on_def d i)
qed



subsection \<open>One batch\<close>

text \<open>
  The calls made for a message, a stream's messages and a batch: for each message in turn
  its invocation, followed at once by its acknowledgment if there is one.
\<close>

lemma process_message_calls:
  "\<exists>ok. filter is_dispatch_call (fst (process_message W g f stream m w))
          = calls_of g f ((stream, m), ok)"
proof (cases "Invoke W f (payload_of m) w")
  case (Pair r w')
  show ?thesis
  proof (cases r)
    case (Inl err)
    with Pair have "filter is_dispatch_call (fst (process_message W g f stream m w))
                      = calls_of g f ((stream, m), False)"
      by (simp add: process_message_def invokeLambda_def calls_of_def)
    then show ?thesis ..
  next
    case (Inr out)
    with Pair have "filter is_dispatch_call (fst (process_message W g f stream m w))
                      = calls_of g f ((stream, m), True)"
      by (simp add: process_message_def invokeLambda_def calls_of_def split: prod.splits)
    then show ?thesis ..
  qed
qed

lemma process_messages_calls:
  "\<exists>oks. length oks = length ms \<and>
         filter is_dispatch_call (fst (process_messages W g f stream ms w))
           = concat (map (calls_of g f) (zip (map (Pair stream) ms) oks))"
proof (induction ms arbitrary: w)
  case Nil
  show ?case by simp
next
  case (Cons m ms)
  obtain evs w' where one: "process_message W g f stream m w = (evs, w')"
    by (cases "process_message W g f stream m w") auto
  obtain ok where ok: "filter is_dispatch_call evs = calls_of g f ((stream, m), ok)"
    using process_message_calls [of W g f stream m w] one by auto
  obtain evs' w'' where rest: "process_messages W g f stream ms w' = (evs', w'')"
    by (cases "process_messages W g f stream ms w'") auto
  obtain oks where oks: "length oks = length ms"
    "filter is_dispatch_call evs'
       = concat (map (calls_of g f) (zip (map (Pair stream) ms) oks))"
    using Cons.IH [of w'] rest by auto
  have "length (ok # oks) = length (m # ms)"
    using oks(1) by simp
  moreover have "filter is_dispatch_call (fst (process_messages W g f stream (m # ms) w))
       = concat (map (calls_of g f) (zip (map (Pair stream) (m # ms)) (ok # oks)))"
    using one rest ok oks(2) by simp
  ultimately show ?case by blast
qed

lemma process_entries_calls:
  "\<exists>oks. length oks = length (batch_messages entries) \<and>
         filter is_dispatch_call (fst (process_entries W g f entries w))
           = concat (map (calls_of g f) (zip (batch_messages entries) oks))"
proof (induction entries arbitrary: w)
  case Nil
  show ?case by (simp add: batch_messages_def)
next
  case (Cons entry entries)
  obtain evs w' where one:
    "process_messages W g f (Stream entry) (Messages entry) w = (evs, w')"
    by (cases "process_messages W g f (Stream entry) (Messages entry) w") auto
  obtain oks1 where oks1: "length oks1 = length (Messages entry)"
    "filter is_dispatch_call evs
       = concat (map (calls_of g f) (zip (map (Pair (Stream entry)) (Messages entry)) oks1))"
    using process_messages_calls [of "Messages entry" W g f "Stream entry" w] one by auto
  obtain evs' w'' where rest: "process_entries W g f entries w' = (evs', w'')"
    by (cases "process_entries W g f entries w'") auto
  obtain oks2 where oks2: "length oks2 = length (batch_messages entries)"
    "filter is_dispatch_call evs'
       = concat (map (calls_of g f) (zip (batch_messages entries) oks2))"
    using Cons.IH [of w'] rest by auto
  have b: "batch_messages (entry # entries)
             = map (Pair (Stream entry)) (Messages entry) @ batch_messages entries"
    by (simp add: batch_messages_def)
  have "length (oks1 @ oks2) = length (batch_messages (entry # entries))"
    using oks1(1) oks2(1) b by simp
  moreover have "filter is_dispatch_call (fst (process_entries W g f (entry # entries) w))
       = concat (map (calls_of g f) (zip (batch_messages (entry # entries)) (oks1 @ oks2)))"
    using one rest oks1 oks2(2) b by simp
  ultimately show ?case by blast
qed

text \<open>
  C8. After a successful claim the calls of the turn are the read, and then, for the
  messages of the batch in the order the claim returned them (stream by stream, message by
  message), the invocation of the message and, when it is issued, the acknowledgment of
  that message before the invocation of the next one. The trace is one sequence: nothing
  is dispatched in parallel.
\<close>

theorem batch_is_dispatched_in_order:
  assumes "XReadGroup W (read_args streamList g) w = (Inr entries, w')"
  shows "\<exists>oks. length oks = length (batch_messages entries) \<and>
           filter is_dispatch_call (fst (iteration W streamList g f w))
             = Call_XReadGroup (read_args streamList g)
               # concat (map (calls_of g f) (zip (batch_messages entries) oks))"
proof -
  obtain evs w'' where batch: "process_entries W g f entries w' = (evs, w'')"
    by (cases "process_entries W g f entries w'") auto
  obtain oks where oks: "length oks = length (batch_messages entries)"
    "filter is_dispatch_call evs
       = concat (map (calls_of g f) (zip (batch_messages entries) oks))"
    using process_entries_calls [of entries W g f w'] batch by auto
  have "filter is_dispatch_call (fst (iteration W streamList g f w))
             = Call_XReadGroup (read_args streamList g)
               # concat (map (calls_of g f) (zip (batch_messages entries) oks))"
    using assms batch oks(2) by (simp add: iteration_def)
  with oks(1) show ?thesis by blast
qed

theorem batch_is_dispatched_in_order_witness:
  \<open>XReadGroup (sim_world no_fault (lam_fail_on (payload_of msg2)) no_fault)
      (read_args [''orders'', ''returns''] ''g1'') (sim0\<lparr>reads := [Inr batch1]\<rparr>)
     = (Inr batch1, sim0)
   \<and> (\<exists>oks. length oks = 3 \<and>
        filter is_dispatch_call
          (fst (iteration (sim_world no_fault (lam_fail_on (payload_of msg2)) no_fault)
                  [''orders'', ''returns''] ''g1'' ''fn'' (sim0\<lparr>reads := [Inr batch1]\<rparr>)))
        = Call_XReadGroup (read_args [''orders'', ''returns''] ''g1'')
          # concat (map (calls_of ''g1'' ''fn'') (zip (batch_messages batch1) oks)))
   \<and> filter is_dispatch_call
        (fst (iteration (sim_world no_fault (lam_fail_on (payload_of msg2)) no_fault)
                [''orders'', ''returns''] ''g1'' ''fn'' (sim0\<lparr>reads := [Inr batch1]\<rparr>)))
      = [Call_XReadGroup (read_args [''orders'', ''returns''] ''g1''),
         Call_Invoke ''fn'' ''{"message": "map[action:buy user:42]"}'',
         Call_XAck ''orders'' ''g1'' ''1-0'',
         Call_Invoke ''fn'' ''{"message": "map[action:sell user:7]"}'',
         Call_Invoke ''fn'' ''{"message": "map[order:17]"}'',
         Call_XAck ''returns'' ''g1'' ''1-5'']\<close>
proof -
  let ?W = "sim_world no_fault (lam_fail_on (payload_of msg2)) no_fault"
  let ?s = "sim0\<lparr>reads := [Inr batch1]\<rparr>"
  have rd: "XReadGroup ?W (read_args [''orders'', ''returns''] ''g1'') ?s = (Inr batch1, sim0)"
    by (simp add: sim_world_def sim0_def)
  have len: "length (batch_messages batch1) = 3"
    by (simp add: batch_messages_def batch1_def)
  have ex: "\<exists>oks. length oks = 3 \<and>
        filter is_dispatch_call (fst (iteration ?W [''orders'', ''returns''] ''g1'' ''fn'' ?s))
        = Call_XReadGroup (read_args [''orders'', ''returns''] ''g1'')
          # concat (map (calls_of ''g1'' ''fn'') (zip (batch_messages batch1) oks))"
    using batch_is_dispatched_in_order [OF rd, of "''fn''"] len by simp
  have ids: "ID msg1 = ''1-0''" "ID msg2 = ''2-0''" "ID msg3 = ''1-5''"
    by (simp_all add: msg1_def msg2_def msg3_def)
  have m1: "filter is_dispatch_call evs
              = [Call_Invoke ''fn'' (payload_of msg1), Call_XAck ''orders'' ''g1'' ''1-0'']"
    if "process_message ?W ''g1'' ''fn'' ''orders'' msg1 w = (evs, w')" for w evs w'
    using that by (auto simp add: process_message_def invokeLambda_def sim_world_def lam_fail_on_def no_fault_def
        payload_msg1 payload_msg2 ids)
  have m2: "filter is_dispatch_call evs = [Call_Invoke ''fn'' (payload_of msg2)]"
    if "process_message ?W ''g1'' ''fn'' ''orders'' msg2 w = (evs, w')" for w evs w'
    using that by (auto simp add: process_message_def invokeLambda_def sim_world_def lam_fail_on_def)
  have m3: "filter is_dispatch_call evs
              = [Call_Invoke ''fn'' (payload_of msg3), Call_XAck ''returns'' ''g1'' ''1-5'']"
    if "process_message ?W ''g1'' ''fn'' ''returns'' msg3 w = (evs, w')" for w evs w'
    using that by (auto simp add: process_message_def invokeLambda_def sim_world_def lam_fail_on_def no_fault_def
        payload_msg3 payload_msg2 ids)
  have tr: "filter is_dispatch_call (fst (iteration ?W [''orders'', ''returns''] ''g1'' ''fn'' ?s))
      = [Call_XReadGroup (read_args [''orders'', ''returns''] ''g1''),
         Call_Invoke ''fn'' (payload_of msg1),
         Call_XAck ''orders'' ''g1'' ''1-0'',
         Call_Invoke ''fn'' (payload_of msg2),
         Call_Invoke ''fn'' (payload_of msg3),
         Call_XAck ''returns'' ''g1'' ''1-5'']"
    using rd by (auto simp add: iteration_def batch1_def split: prod.splits dest!: m1 m2 m3)
  show ?thesis
    using rd ex tr by (simp only: payload_msg1 payload_msg2 payload_msg3 simp_thms)
qed

subsection \<open>The payload\<close>










subsection \<open>Acknowledgments in a batch\<close>

text \<open>
  The calls for one message, for the messages of one stream and for a batch, with the
  result of each invocation taken at the state in which it was made.
\<close>

lemma process_message_calls_exact:
  "filter is_dispatch_call (fst (process_message W g f stream m w))
     = calls_of g f ((stream, m), \<not> isl (fst (Invoke W f (payload_of m) w)))"
proof (cases "Invoke W f (payload_of m) w")
  case (Pair r w')
  show ?thesis
  proof (cases r)
    case (Inl err)
    with Pair show ?thesis
      by (simp add: process_message_def invokeLambda_def calls_of_def)
  next
    case (Inr out)
    with Pair show ?thesis
      by (simp add: process_message_def invokeLambda_def calls_of_def split: prod.splits)
  qed
qed

lemma state_after_append:
  "state_after W g f (xs @ ys) w = state_after W g f ys (state_after W g f xs w)"
  by (induction xs arbitrary: w) auto

lemma invocation_results_append:
  "invocation_results W g f (xs @ ys) w
     = invocation_results W g f xs w @ invocation_results W g f ys (state_after W g f xs w)"
  by (induction xs arbitrary: w) auto

lemma length_invocation_results: "length (invocation_results W g f xs w) = length xs"
  by (induction xs arbitrary: w) auto

lemma process_messages_results:
  "snd (process_messages W g f stream ms w) = state_after W g f (map (Pair stream) ms) w
   \<and> filter is_dispatch_call (fst (process_messages W g f stream ms w))
       = concat (map (calls_of g f)
           (zip (map (Pair stream) ms)
                (map (\<lambda>r. \<not> isl r) (invocation_results W g f (map (Pair stream) ms) w))))"
proof (induction ms arbitrary: w)
  case Nil
  show ?case by simp
next
  case (Cons m ms)
  obtain evs w' where one: "process_message W g f stream m w = (evs, w')"
    by (cases "process_message W g f stream m w") auto
  obtain evs' w'' where rest: "process_messages W g f stream ms w' = (evs', w'')"
    by (cases "process_messages W g f stream ms w'") auto
  have c: "filter is_dispatch_call evs
             = calls_of g f ((stream, m), \<not> isl (fst (Invoke W f (payload_of m) w)))"
    using process_message_calls_exact [of W g f stream m w] one by simp
  from Cons.IH [of w'] rest
  have ih: "w'' = state_after W g f (map (Pair stream) ms) w'"
    "filter is_dispatch_call evs'
       = concat (map (calls_of g f)
           (zip (map (Pair stream) ms)
                (map (\<lambda>r. \<not> isl r) (invocation_results W g f (map (Pair stream) ms) w'))))"
    by simp_all
  show ?case
    using one rest c ih by simp
qed

lemma process_entries_results:
  "snd (process_entries W g f entries w) = state_after W g f (batch_messages entries) w
   \<and> filter is_dispatch_call (fst (process_entries W g f entries w))
       = concat (map (calls_of g f)
           (zip (batch_messages entries)
                (map (\<lambda>r. \<not> isl r) (invocation_results W g f (batch_messages entries) w))))"
proof (induction entries arbitrary: w)
  case Nil
  show ?case by (simp add: batch_messages_def)
next
  case (Cons entry entries)
  let ?xs = "map (Pair (Stream entry)) (Messages entry)"
  obtain evs w' where one:
    "process_messages W g f (Stream entry) (Messages entry) w = (evs, w')"
    by (cases "process_messages W g f (Stream entry) (Messages entry) w") auto
  obtain evs' w'' where rest: "process_entries W g f entries w' = (evs', w'')"
    by (cases "process_entries W g f entries w'") auto
  from process_messages_results [of W g f "Stream entry" "Messages entry" w] one
  have h: "w' = state_after W g f ?xs w"
    "filter is_dispatch_call evs
       = concat (map (calls_of g f)
           (zip ?xs (map (\<lambda>r. \<not> isl r) (invocation_results W g f ?xs w))))"
    by simp_all
  from Cons.IH [of w'] rest
  have ih: "w'' = state_after W g f (batch_messages entries) w'"
    "filter is_dispatch_call evs'
       = concat (map (calls_of g f)
           (zip (batch_messages entries)
                (map (\<lambda>r. \<not> isl r) (invocation_results W g f (batch_messages entries) w'))))"
    by simp_all
  have b: "batch_messages (entry # entries) = ?xs @ batch_messages entries"
    by (simp add: batch_messages_def)
  have len: "length ?xs = length (map (\<lambda>r. \<not> isl r) (invocation_results W g f ?xs w))"
    by (simp add: length_invocation_results)
  have st: "snd (process_entries W g f (entry # entries) w)
              = state_after W g f (batch_messages (entry # entries)) w"
    unfolding b state_after_append using one rest h(1) ih(1) by simp
  have "filter is_dispatch_call (fst (process_entries W g f (entry # entries) w))
          = filter is_dispatch_call evs @ filter is_dispatch_call evs'"
    using one rest by simp
  also have "\<dots> = concat (map (calls_of g f)
           (zip (batch_messages (entry # entries))
                (map (\<lambda>r. \<not> isl r)
                   (invocation_results W g f (batch_messages (entry # entries)) w))))"
    unfolding b invocation_results_append map_append zip_append [OF len] h(2) ih(2) h(1)
    by simp
  finally show ?case using st by simp
qed

text \<open>
  With the Lambda client of the SDK a returned result carries a success status, so an
  invocation succeeded exactly when the call returned no error.
\<close>

lemma invocation_results_succeeded:
  assumes client:
    "\<forall>f p w out w'. Invoke W f p w = (Inr out, w') \<longrightarrow> success_status (StatusCode out)"
  shows "map (\<lambda>r. \<not> isl r) (invocation_results W g f xs w)
           = map invocation_succeeded (invocation_results W g f xs w)"
proof (induction xs arbitrary: w)
  case Nil
  show ?case by simp
next
  case (Cons x xs)
  have "(\<not> isl (fst (Invoke W f (payload_of (snd x)) w)))
          = invocation_succeeded (fst (Invoke W f (payload_of (snd x)) w))"
  proof (cases "Invoke W f (payload_of (snd x)) w")
    case (Pair r w')
    then show ?thesis
      using client [rule_format, of f "payload_of (snd x)" w _ w'] by (cases r) auto
  qed
  with Cons.IH show ?case by simp
qed

text \<open>
  C1. The Lambda client returns a result only with a success status; a reply with any
  other status reaches the program as the error of the call. Then, for every message of a
  claimed batch, in the order of the batch, the calls are the invocation and, if and only
  if that invocation succeeded (no error of the call and a success status), the
  acknowledgment by stream, consumer group and message id. For a single message in any
  state: the acknowledgment is in the trace if and only if the invocation succeeded, and
  on an error of the call the error is logged and nothing is acknowledged.
\<close>

theorem ack_iff_invocation_succeeded:
  assumes client:
    "\<forall>f p w out w'. Invoke W f p w = (Inr out, w') \<longrightarrow> success_status (StatusCode out)"
  shows "filter is_dispatch_call (fst (process_entries W g f entries w))
           = concat (map (calls_of g f)
               (zip (batch_messages entries)
                    (map invocation_succeeded
                       (invocation_results W g f (batch_messages entries) w))))
         \<and> (Call_XAck stream g (ID m) \<in> set (fst (process_message W g f stream m v)))
             = invocation_succeeded (fst (Invoke W f (payload_of m) v))
         \<and> (\<forall>err w'. Invoke W f (payload_of m) v = (Inl err, w') \<longrightarrow>
               process_message W g f stream m v =
                 ([Printf (''Processing message ID: '' @ ID m @ '' from stream: '' @ stream),
                   Call_Invoke f (payload_of m),
                   Printf (''Error invoking Lambda: '' @ err)], w'))"
proof -
  have batch: "filter is_dispatch_call (fst (process_entries W g f entries w))
           = concat (map (calls_of g f)
               (zip (batch_messages entries)
                    (map invocation_succeeded
                       (invocation_results W g f (batch_messages entries) w))))"
    using process_entries_results [of W g f entries w]
      invocation_results_succeeded [of W g f "batch_messages entries" w, OF client]
    by simp
  have one: "(Call_XAck stream g (ID m) \<in> set (fst (process_message W g f stream m v)))
             = invocation_succeeded (fst (Invoke W f (payload_of m) v))"
  proof (cases "Invoke W f (payload_of m) v")
    case (Pair r w')
    show ?thesis
    proof (cases r)
      case (Inl err)
      with Pair show ?thesis
        by (simp add: process_message_def invokeLambda_def)
    next
      case (Inr out)
      with Pair client [rule_format, of f "payload_of m" v out w'] show ?thesis
        by (simp add: process_message_def invokeLambda_def split: prod.splits)
    qed
  qed
  have failed: "\<forall>err w'. Invoke W f (payload_of m) v = (Inl err, w') \<longrightarrow>
               process_message W g f stream m v =
                 ([Printf (''Processing message ID: '' @ ID m @ '' from stream: '' @ stream),
                   Call_Invoke f (payload_of m),
                   Printf (''Error invoking Lambda: '' @ err)], w')"
    by (simp add: process_message_def invokeLambda_def)
  from batch one failed show ?thesis by blast
qed

theorem ack_iff_invocation_succeeded_witness:
  \<open>filter is_dispatch_call
      (fst (process_entries (sim_world no_fault (lam_fail_on (payload_of msg2)) no_fault)
              ''g1'' ''fn'' batch1 sim0))
     = [Call_Invoke ''fn'' ''{"message": "map[action:buy user:42]"}'',
        Call_XAck ''orders'' ''g1'' ''1-0'',
        Call_Invoke ''fn'' ''{"message": "map[action:sell user:7]"}'',
        Call_Invoke ''fn'' ''{"message": "map[order:17]"}'',
        Call_XAck ''returns'' ''g1'' ''1-5'']
   \<and> map invocation_succeeded
        (invocation_results (sim_world no_fault (lam_fail_on (payload_of msg2)) no_fault)
           ''g1'' ''fn'' (batch_messages batch1) sim0)
      = [True, False, True]
   \<and> process_message (sim_world no_fault (lam_fail_on (payload_of msg2)) no_fault)
        ''g1'' ''fn'' ''orders'' msg2 sim0
      = ([Printf ''Processing message ID: 2-0 from stream: orders'',
          Call_Invoke ''fn'' ''{"message": "map[action:sell user:7]"}'',
          Printf ''Error invoking Lambda: RequestError: send request failed''], sim0)\<close>
proof -
  let ?W = "sim_world no_fault (lam_fail_on (payload_of msg2)) no_fault"
  have client: "\<forall>f p w out w'.
      Invoke ?W f p w = (Inr out, w') \<longrightarrow> success_status (StatusCode out)"
    by (auto simp add: sim_world_def lam_fail_on_def success_status_def split: if_splits)
  note T = ack_iff_invocation_succeeded
             [where W = ?W and g = "''g1''" and f = "''fn''" and entries = batch1 and w = sim0
                and stream = "''orders''" and m = msg2 and v = sim0, OF client]
  have ids: "ID msg1 = ''1-0''" "ID msg2 = ''2-0''" "ID msg3 = ''1-5''"
    by (simp_all add: msg1_def msg2_def msg3_def)
  have inv: "fst (Invoke (sim_world no_fault (lam_fail_on bad) no_fault) ''fn'' p w)
               = lam_fail_on bad p" for bad p w
    by (simp add: sim_world_def)
  have bm: "batch_messages batch1 = [(''orders'', msg1), (''orders'', msg2), (''returns'', msg3)]"
    by (simp add: batch_messages_def batch1_def)
  have res: "map invocation_succeeded
               (invocation_results ?W ''g1'' ''fn'' (batch_messages batch1) sim0)
             = [True, False, True]"
    unfolding bm
    by (simp add: inv lam_fail_on_def payload_msg1 payload_msg2 payload_msg3 success_status_def)
  have bad: "Invoke ?W ''fn'' (payload_of msg2) sim0
               = (Inl ''RequestError: send request failed'', sim0)"
    by (simp add: sim_world_def lam_fail_on_def)
  have calls: "filter is_dispatch_call (fst (process_entries ?W ''g1'' ''fn'' batch1 sim0))
     = [Call_Invoke ''fn'' (payload_of msg1), Call_XAck ''orders'' ''g1'' (ID msg1),
        Call_Invoke ''fn'' (payload_of msg2),
        Call_Invoke ''fn'' (payload_of msg3), Call_XAck ''returns'' ''g1'' (ID msg3)]"
    using T res unfolding bm by (simp add: calls_of_def)
  have log: "process_message ?W ''g1'' ''fn'' ''orders'' msg2 sim0
      = ([Printf (''Processing message ID: '' @ ID msg2 @ '' from stream: '' @ ''orders''),
          Call_Invoke ''fn'' (payload_of msg2),
          Printf (''Error invoking Lambda: '' @ ''RequestError: send request failed'')], sim0)"
    using T bad by blast
  show ?thesis
    using calls res log by (simp add: ids payload_msg1 payload_msg2 payload_msg3)
qed

end
